theory Spec2Isabelle
  imports Complex_Main
begin

section \<open>Flood-category resolution and accuracy aggregation\<close>

text \<open>
  The development embeds the category-resolution core of the flood impact mapping
  scripts: \<^verbatim>\<open>check_flood_at_point\<close>, \<^verbatim>\<open>filter_unique_features\<close> and
  \<^verbatim>\<open>analyze_flood_accuracy\<close> of \<^verbatim>\<open>analyze_flood_accuracy.py\<close>, and
  \<^verbatim>\<open>get_flood_category_at_point\<close> and \<^verbatim>\<open>get_max_flood_for_line\<close> of
  \<^verbatim>\<open>flood_impact_mapper.py\<close>.

  Coordinates and distances are Python floats in the source; they are idealised as reals
  here, and no statement below depends on rounding errors. What geopandas, shapely and
  rasterio compute from them (reprojection, the cell of a coordinate, the cells a buffer
  covers) is taken as a parameter, the record \<open>geo\<close>; what numpy and pandas compute on
  numbers (rounding) is the record \<open>numlib\<close>. A Python exception is a value of type
  \<open>fault\<close>, and a function that can raise returns \<open>fault + 'a\<close>.
\<close>

subsection \<open>Exceptions and geometries\<close>

datatype fault =
    CRSError | AttributeError | TransformError | RasterioIOError
  | ValueError | IndexError | KeyError | OverflowError

type_synonym coord = "real \<times> real"

datatype geometry = Point coord | LineString "coord list" | Polygon "coord list"

text \<open>\<^verbatim>\<open>point_geom.buffer(search_distance)\<close>: the polygon is kept symbolic; only
  rasterio interprets it.\<close>

datatype shape = Buffer geometry real

text \<open>\<^verbatim>\<open>point_geom.x, point_geom.y\<close>: only a point has these attributes.\<close>

fun xy :: "geometry \<Rightarrow> fault + coord" where
  "xy (Point c) = Inr c"
| "xy (LineString cs) = Inl AttributeError"
| "xy (Polygon cs) = Inl AttributeError"

subsection \<open>Tabular feature collections\<close>

text \<open>A GeoDataFrame, column by column: the geometry column and the attribute columns in
  their order. Every column of a frame has one entry per row.\<close>

datatype val = Num real | Str string

record gdf =
  geometry :: "geometry list"
  columns :: "(string \<times> val list) list"


subsection \<open>The raster and its georeferencing\<close>

text \<open>An open rasterio dataset with one band: \<open>band1 r c\<close> is the stored value of the cell
  in row \<open>r\<close> and column \<open>c\<close>, read only for \<open>0 \<le> r < height\<close> and \<open>0 \<le> c < width\<close>;
  \<open>nodata\<close> is the declared no-data sentinel; every read of a closed dataset raises.\<close>

record dataset =
  height :: nat
  width :: nat
  band1 :: "int \<Rightarrow> int \<Rightarrow> int"
  nodata :: "int option"
  closed :: bool

text \<open>The geometry libraries, for the coordinate reference and affine transform of one raster:
  \<^item> \<open>to_crs\<close>: \<^verbatim>\<open>GeoDataFrame(geometry=[point], crs="EPSG:4326").to_crs(crs).geometry.values[0]\<close>;
  \<^item> \<open>rowcol\<close>: \<^verbatim>\<open>rasterio.transform.rowcol(transform, x, y)\<close>;
  \<^item> \<open>shape_bounds\<close>: the rows \<open>(start, stop)\<close> and columns \<open>(start, stop)\<close> of the
    bounding box of a shape, in cells, before it is clipped to the raster;
  \<^item> \<open>rasterize\<close>: whether a cell belongs to the shape (its centre lies inside);
  \<^item> \<open>interpolate\<close>: \<^verbatim>\<open>line.interpolate(fraction, normalized=True)\<close>;
  \<^item> \<open>overlay\<close>: \<^verbatim>\<open>gpd.overlay(claims.to_crs(crs), flood_bbox, how='intersection')\<close>.\<close>

record geo =
  to_crs :: "geometry \<Rightarrow> fault + geometry"
  rowcol :: "real \<Rightarrow> real \<Rightarrow> fault + int \<times> int"
  shape_bounds :: "shape \<Rightarrow> fault + (int \<times> int) \<times> (int \<times> int)"
  rasterize :: "shape \<Rightarrow> int \<Rightarrow> int \<Rightarrow> bool"
  interpolate :: "coord list \<Rightarrow> real \<Rightarrow> coord"
  overlay :: "gdf \<Rightarrow> fault + gdf"

text \<open>\<^verbatim>\<open>flood_src.read(1, window=((row, row+1), (col, col+1)))[0, 0]\<close>: the raw stored
  value, the sentinel included.\<close>

definition read_cell :: "dataset \<Rightarrow> int \<Rightarrow> int \<Rightarrow> fault + int" where
  "read_cell src row col =
     (if closed src then Inl RasterioIOError else Inr (band1 src row col))"

text \<open>\<^verbatim>\<open>mask(dataset, [shape], crop=True, nodata=fill)\<close>, flattened. The window is the
  bounding box of the shape clipped to the raster, and a shape that misses the raster
  raises. The band is read masked, so a cell holding the dataset's no-data sentinel is
  filled like a cell outside the shape.\<close>

definition rasterio_mask :: "geo \<Rightarrow> dataset \<Rightarrow> shape \<Rightarrow> int \<Rightarrow> fault + int list" where
  "rasterio_mask G src s fill =
     (case shape_bounds G s of
        Inl e \<Rightarrow> Inl e
      | Inr ((row_start, row_stop), (col_start, col_stop)) \<Rightarrow>
          let r0 = max 0 row_start; r1 = min (int (height src)) row_stop;
              c0 = max 0 col_start; c1 = min (int (width src)) col_stop
          in if r1 \<le> r0 \<or> c1 \<le> c0 then Inl ValueError
             else if closed src then Inl RasterioIOError
             else Inr (concat (map (\<lambda>r. map (\<lambda>c.
                    if rasterize G s r c \<and> nodata src \<noteq> Some (band1 src r c)
                    then band1 src r c else fill) [c0..c1 - 1]) [r0..r1 - 1])))"

text \<open>\<^verbatim>\<open>int(np.max(masked_data))\<close>: numpy raises on an array without elements.\<close>

fun np_max :: "int list \<Rightarrow> fault + int" where
  "np_max [] = Inl ValueError"
| "np_max (x # xs) = Inr (fold max xs x)"

subsection \<open>Point resolution of the accuracy analyzer\<close>

text \<open>The buffer step of \<^verbatim>\<open>check_flood_at_point\<close> (lines 87 to 96).\<close>

definition check_buffer :: "geo \<Rightarrow> dataset \<Rightarrow> shape \<Rightarrow> fault + int" where
  "check_buffer G flood_src buffer =
     (case rasterio_mask G flood_src buffer 0 of
        Inl e \<Rightarrow> Inl e
      | Inr masked_data \<Rightarrow>
          (case np_max masked_data of
             Inl e \<Rightarrow> Inl e
           | Inr max_value \<Rightarrow> if max_value > 0 then Inr max_value else Inr 0))"

text \<open>The body of the \<^verbatim>\<open>try\<close> block of \<^verbatim>\<open>check_flood_at_point\<close>.\<close>

definition check_flood_try :: "geo \<Rightarrow> geometry \<Rightarrow> dataset \<Rightarrow> real \<Rightarrow> fault + int" where
  "check_flood_try G point flood_src search_distance =
     (case to_crs G point of
        Inl e \<Rightarrow> Inl e
      | Inr point_geom \<Rightarrow>
          let buffer = Buffer point_geom search_distance in
          (case xy point_geom of
             Inl e \<Rightarrow> Inl e
           | Inr (x, y) \<Rightarrow>
               (case rowcol G x y of
                  Inl e \<Rightarrow> Inl e
                | Inr (row, col) \<Rightarrow>
                    if 0 \<le> row \<and> row < int (height flood_src) \<and>
                       0 \<le> col \<and> col < int (width flood_src)
                    then (case read_cell flood_src row col of
                            Inl e \<Rightarrow> Inl e
                          | Inr flood_value \<Rightarrow>
                              if flood_value > 0 then Inr flood_value
                              else check_buffer G flood_src buffer)
                    else check_buffer G flood_src buffer)))"

text \<open>\<^verbatim>\<open>check_flood_at_point\<close>: \<^verbatim>\<open>except Exception\<close> turns every fault of the body
  into the category 0.\<close>

definition check_flood_at_point :: "geo \<Rightarrow> geometry \<Rightarrow> dataset \<Rightarrow> real \<Rightarrow> fault + int" where
  "check_flood_at_point G point flood_src search_distance =
     (case check_flood_try G point flood_src search_distance of
        Inl e \<Rightarrow> Inr 0
      | Inr category \<Rightarrow> Inr category)"

subsection \<open>Comprehensions\<close>

text \<open>A list comprehension over a function that can raise: the first fault ends it.\<close>

fun collect :: "('a \<Rightarrow> fault + 'b) \<Rightarrow> 'a list \<Rightarrow> fault + 'b list" where
  "collect f [] = Inr []"
| "collect f (x # xs) =
     (case f x of
        Inl e \<Rightarrow> Inl e
      | Inr y \<Rightarrow> (case collect f xs of Inl e \<Rightarrow> Inl e | Inr ys \<Rightarrow> Inr (y # ys)))"

subsection \<open>Deduplication\<close>

text \<open>numpy on numbers: \<open>round_to d x\<close> is \<^verbatim>\<open>Series.round(decimals=d)\<close> on the entry \<open>x\<close>.\<close>

record numlib =
  round_to :: "int \<Rightarrow> real \<Rightarrow> real"

text \<open>Python's \<^verbatim>\<open>int\<close> of a float truncates towards zero.\<close>

definition py_int :: "real \<Rightarrow> int" where
  "py_int r = (if 0 \<le> r then \<lfloor>r\<rfloor> else \<lceil>r\<rceil>)"

text \<open>\<^verbatim>\<open>int(-np.log10(precision))\<close>: the logarithm of 0 is minus infinity and that of a
  negative number is not a number, and \<^verbatim>\<open>int\<close> raises on both.\<close>

definition decimals_of :: "real \<Rightarrow> fault + int" where
  "decimals_of precision =
     (if 0 < precision then Inr (py_int (- log 10 precision))
      else if precision = 0 then Inl OverflowError
      else Inl ValueError)"

text \<open>\<^verbatim>\<open>GeoSeries.x\<close> and \<^verbatim>\<open>GeoSeries.y\<close> raise unless every geometry is a point.\<close>

fun point_x :: "geometry \<Rightarrow> fault + real" where
  "point_x (Point c) = Inr (fst c)"
| "point_x (LineString cs) = Inl ValueError"
| "point_x (Polygon cs) = Inl ValueError"

fun point_y :: "geometry \<Rightarrow> fault + real" where
  "point_y (Point c) = Inr (snd c)"
| "point_y (LineString cs) = Inl ValueError"
| "point_y (Polygon cs) = Inl ValueError"

text \<open>\<^verbatim>\<open>frame[name] = values\<close> changes the frame in place: an existing column is
  replaced where it stands, a new one is appended.\<close>

definition set_column :: "string \<Rightarrow> val list \<Rightarrow> gdf \<Rightarrow> gdf" where
  "set_column name vs f =
     f\<lparr>columns :=
         (if name \<in> set (map fst (columns f))
          then map (\<lambda>col. if fst col = name then (name, vs) else col) (columns f)
          else columns f @ [(name, vs)])\<rparr>"

text \<open>\<^verbatim>\<open>DataFrame.duplicated\<close> with \<^verbatim>\<open>keep='first'\<close>: a row is a duplicate when its key
  was seen in an earlier row.\<close>

fun duplicated :: "'k list \<Rightarrow> 'k list \<Rightarrow> bool list" where
  "duplicated seen [] = []"
| "duplicated seen (k # ks) = (k \<in> set seen) # duplicated (k # seen) ks"

definition take_rows :: "bool list \<Rightarrow> 'a list \<Rightarrow> 'a list" where
  "take_rows keep xs = map fst (filter snd (zip xs keep))"

definition select_rows :: "bool list \<Rightarrow> gdf \<Rightarrow> gdf" where
  "select_rows keep f =
     \<lparr>geometry = take_rows keep (geometry f),
      columns = map (\<lambda>col. (fst col, take_rows keep (snd col))) (columns f)\<rparr>"

definition get_column :: "gdf \<Rightarrow> string \<Rightarrow> fault + val list" where
  "get_column f name =
     (case map_of (columns f) name of None \<Rightarrow> Inl KeyError | Some vs \<Rightarrow> Inr vs)"

text \<open>The key of each row under \<^verbatim>\<open>subset\<close>: its entries in these columns.\<close>

definition row_keys :: "gdf \<Rightarrow> string list \<Rightarrow> fault + val list list" where
  "row_keys f subset_cols =
     (case collect (get_column f) subset_cols of
        Inl e \<Rightarrow> Inl e
      | Inr cols \<Rightarrow> Inr (map (\<lambda>i. map (\<lambda>vs. vs ! i) cols) [0..<length (geometry f)]))"

text \<open>\<^verbatim>\<open>frame.drop_duplicates(subset=...)\<close> returns a new frame.\<close>

definition drop_duplicates :: "gdf \<Rightarrow> string list \<Rightarrow> fault + gdf" where
  "drop_duplicates f subset_cols =
     (case row_keys f subset_cols of
        Inl e \<Rightarrow> Inl e
      | Inr keys \<Rightarrow> Inr (select_rows (map Not (duplicated [] keys)) f))"

text \<open>\<^verbatim>\<open>frame.drop(columns=names)\<close> returns a new frame and raises on a missing column.\<close>

definition drop_columns :: "gdf \<Rightarrow> string list \<Rightarrow> fault + gdf" where
  "drop_columns f names =
     (if list_all (\<lambda>name. name \<in> set (map fst (columns f))) names
      then Inr (f\<lparr>columns := filter (\<lambda>col. fst col \<notin> set names) (columns f)\<rparr>)
      else Inl KeyError)"

text \<open>What a call of \<^verbatim>\<open>filter_unique_features\<close> leaves behind: the caller's frame after
  the call, the returned frame, and the count it prints.\<close>

record dedup_outcome =
  claims_gdf_after :: gdf
  unique_claims :: gdf
  filtered :: int

definition filter_unique_features :: "numlib \<Rightarrow> gdf \<Rightarrow> real \<Rightarrow> fault + dedup_outcome" where
  "filter_unique_features N claims_gdf precision =
     (case collect point_x (geometry claims_gdf) of
        Inl e \<Rightarrow> Inl e
      | Inr xs \<Rightarrow>
     (case decimals_of precision of
        Inl e \<Rightarrow> Inl e
      | Inr dx \<Rightarrow>
          let claims_gdf1 = set_column ''rounded_x'' (map (\<lambda>x. Num (round_to N dx x)) xs) claims_gdf in
     (case collect point_y (geometry claims_gdf1) of
        Inl e \<Rightarrow> Inl e
      | Inr ys \<Rightarrow>
     (case decimals_of precision of
        Inl e \<Rightarrow> Inl e
      | Inr dy \<Rightarrow>
          let claims_gdf2 = set_column ''rounded_y'' (map (\<lambda>y. Num (round_to N dy y)) ys) claims_gdf1 in
     (case drop_duplicates claims_gdf2 [''rounded_x'', ''rounded_y''] of
        Inl e \<Rightarrow> Inl e
      | Inr unique \<Rightarrow>
     (case drop_columns unique [''rounded_x'', ''rounded_y''] of
        Inl e \<Rightarrow> Inl e
      | Inr unique' \<Rightarrow>
          Inr \<lparr>claims_gdf_after = claims_gdf2,
               unique_claims = unique',
               filtered = int (length (geometry claims_gdf2)) - int (length (geometry unique'))\<rparr>))))))"

subsection \<open>Accuracy aggregation\<close>

text \<open>The dictionary that \<^verbatim>\<open>analyze_flood_accuracy\<close> returns. \<open>accuracy\<close> is the exact
  quotient, of which Python keeps the nearest float; \<open>flood_categories\<close> is the dictionary
  of counts, in the order of its keys.\<close>

record accuracy_result =
  total_claims :: nat
  covered_claims :: nat
  accuracy :: real
  flood_categories :: "(int \<times> nat) list"

text \<open>\<^verbatim>\<open>flood_categories[flood_cat] += 1\<close> on a dictionary: a missing key raises.\<close>

fun dict_incr :: "(int \<times> nat) list \<Rightarrow> int \<Rightarrow> fault + (int \<times> nat) list" where
  "dict_incr [] k = Inl KeyError"
| "dict_incr (entry # d) k =
     (if fst entry = k then Inr ((k, snd entry + 1) # d)
      else (case dict_incr d k of Inl e \<Rightarrow> Inl e | Inr d' \<Rightarrow> Inr (entry # d')))"

text \<open>The search distance of the accuracy analysis, \<^verbatim>\<open>search_distance=2e-5\<close> at the call
  of \<^verbatim>\<open>check_flood_at_point\<close>.\<close>

definition claim_search_distance :: real where
  "claim_search_distance = 2 / 100000"

text \<open>The loop of \<^verbatim>\<open>analyze_flood_accuracy\<close> over the claims (lines 181 to 185), on the
  pair of \<^verbatim>\<open>covered_claims\<close> and \<^verbatim>\<open>flood_categories\<close>.\<close>

fun process_claims ::
  "geo \<Rightarrow> dataset \<Rightarrow> geometry list \<Rightarrow> nat \<times> (int \<times> nat) list \<Rightarrow> fault + nat \<times> (int \<times> nat) list" where
  "process_claims G flood_src [] state = Inr state"
| "process_claims G flood_src (claim # rest) state =
     (case check_flood_at_point G claim flood_src claim_search_distance of
        Inl e \<Rightarrow> Inl e
      | Inr flood_cat \<Rightarrow>
          (case dict_incr (snd state) flood_cat of
             Inl e \<Rightarrow> Inl e
           | Inr counts \<Rightarrow>
               process_claims G flood_src rest
                 (if flood_cat > 0 then fst state + 1 else fst state, counts)))"

text \<open>\<^verbatim>\<open>analyze_flood_accuracy\<close>, from the opened dataset on; the default precision of
  \<^verbatim>\<open>filter_unique_features\<close> is \<^verbatim>\<open>1e-5\<close>.\<close>

definition analyze_flood_accuracy ::
  "geo \<Rightarrow> numlib \<Rightarrow> dataset \<Rightarrow> gdf \<Rightarrow> fault + accuracy_result" where
  "analyze_flood_accuracy G N flood_src claims_gdf =
     (case overlay G claims_gdf of
        Inl e \<Rightarrow> Inl e
      | Inr claims_cropped \<Rightarrow>
     (case filter_unique_features N claims_cropped (1 / 100000) of
        Inl e \<Rightarrow> Inl e
      | Inr outcome \<Rightarrow>
          let claims_unique = unique_claims outcome;
              total_claims = length (geometry claims_unique);
              flood_categories = [(0, 0), (1, 0), (2, 0), (3, 0), (4, 0)]
          in if total_claims = 0
             then Inr \<lparr>total_claims = 0, covered_claims = 0, accuracy = 0,
                       flood_categories = flood_categories\<rparr>
             else
     (case process_claims G flood_src (geometry claims_unique) (0, flood_categories) of
        Inl e \<Rightarrow> Inl e
      | Inr (covered, counts) \<Rightarrow>
          Inr \<lparr>total_claims = total_claims, covered_claims = covered,
               accuracy = (if total_claims > 0
                           then real covered / real total_claims else 0),
               flood_categories = counts\<rparr>)))"

subsection \<open>Point and line resolution of the impact mapper\<close>

text \<open>\<^verbatim>\<open>self.flood_categories\<close>, the dictionary whose keys are the valid categories.\<close>

definition flood_categories_mapper :: "(int \<times> string) list" where
  "flood_categories_mapper =
     [(0, ''No Flood''),
      (1, ''Nuisance Flood (0.1-0.2m)''),
      (2, ''Minor Flood (0.2-0.5m)''),
      (3, ''Moderate Flood (0.5-1.0m)''),
      (4, ''Major Flood (>1.0m)'')]"

text \<open>\<^verbatim>\<open>value in self.flood_categories\<close>.\<close>

definition in_flood_categories :: "int \<Rightarrow> bool" where
  "in_flood_categories v = (v \<in> set (map fst flood_categories_mapper))"

text \<open>The state of a \<^verbatim>\<open>FloodImpactMapper\<close> that resolution reads: the open dataset,
  the band loaded into memory with its shape, and the search distance.\<close>

record mapper =
  flood_src :: dataset
  flood_data :: "int \<Rightarrow> int \<Rightarrow> int"
  flood_data_shape :: "nat \<times> nat"
  search_distance :: real

text \<open>\<^verbatim>\<open>__init__\<close> with \<^verbatim>\<open>load_flood_map\<close>, which re-raises a failed read.\<close>

definition load_flood_map :: "dataset \<Rightarrow> real \<Rightarrow> fault + mapper" where
  "load_flood_map src distance =
     (if closed src then Inl RasterioIOError
      else Inr \<lparr>flood_src = src, flood_data = band1 src,
                flood_data_shape = (height src, width src),
                search_distance = distance\<rparr>)"

text \<open>The \<^verbatim>\<open>try\<close> block of \<^verbatim>\<open>get_flood_category_at_point\<close> (lines 139 to 153):
  every fault in it gives 0.\<close>

definition mapper_buffer :: "geo \<Rightarrow> dataset \<Rightarrow> shape \<Rightarrow> int" where
  "mapper_buffer G src buffer =
     (case rasterio_mask G src buffer 0 of
        Inl e \<Rightarrow> 0
      | Inr masked_data \<Rightarrow>
          (case np_max masked_data of
             Inl e \<Rightarrow> 0
           | Inr max_value \<Rightarrow> if in_flood_categories max_value then max_value else 0))"

definition get_flood_category_at_point :: "geo \<Rightarrow> mapper \<Rightarrow> geometry \<Rightarrow> fault + int" where
  "get_flood_category_at_point G self point =
     (case to_crs G point of
        Inl e \<Rightarrow> Inl e
      | Inr point_geom \<Rightarrow>
          let buffer = Buffer point_geom (search_distance self) in
          (case xy point_geom of
             Inl e \<Rightarrow> Inl e
           | Inr (x, y) \<Rightarrow>
               (case rowcol G x y of
                  Inl e \<Rightarrow> Inl e
                | Inr (row, col) \<Rightarrow>
                    if 0 \<le> row \<and> row < int (fst (flood_data_shape self)) \<and>
                       0 \<le> col \<and> col < int (snd (flood_data_shape self)) \<and>
                       in_flood_categories (flood_data self row col)
                    then Inr (flood_data self row col)
                    else Inr (mapper_buffer G (flood_src self) buffer))))"

text \<open>Python's \<^verbatim>\<open>max\<close> of a list.\<close>

fun py_max :: "int list \<Rightarrow> fault + int" where
  "py_max [] = Inl ValueError"
| "py_max (x # xs) = Inr (fold max xs x)"

text \<open>\<^verbatim>\<open>get_max_flood_for_line\<close>. \<^verbatim>\<open>line.coords[0]\<close> raises on a line without
  vertices.\<close>

definition get_max_flood_for_line :: "geo \<Rightarrow> mapper \<Rightarrow> geometry \<Rightarrow> fault + int" where
  "get_max_flood_for_line G self line =
     (case line of
        LineString coords \<Rightarrow>
          (case coords of
             [] \<Rightarrow> Inl IndexError
           | first # rest \<Rightarrow>
               let points = [Point first,
                             Point (interpolate G coords (1 / 2)),
                             Point (last coords)]
               in (case collect (get_flood_category_at_point G self) points of
                     Inl e \<Rightarrow> Inl e
                   | Inr categories \<Rightarrow> py_max categories))
      | Point c \<Rightarrow> Inr 0
      | Polygon cs \<Rightarrow> Inr 0)"

subsection \<open>What the resolution is to compute\<close>

text \<open>The invariant of a raster: every cell of the grid holds a category from 0 to 4
  or the no-data sentinel.\<close>

definition raster_ok :: "dataset \<Rightarrow> bool" where
  "raster_ok src =
     list_all (\<lambda>r. list_all (\<lambda>c.
         (0 \<le> band1 src r c \<and> band1 src r c \<le> 4) \<or> nodata src = Some (band1 src r c))
       [0..int (width src) - 1]) [0..int (height src) - 1]"

text \<open>The categories found in a region: the values of the cells of the raster that lie in
  the bounding box of the shape, belong to the shape and do not hold the sentinel.\<close>

definition covered_values :: "geo \<Rightarrow> dataset \<Rightarrow> shape \<Rightarrow> int list" where
  "covered_values G src s =
     (case shape_bounds G s of
        Inl e \<Rightarrow> []
      | Inr ((row_start, row_stop), (col_start, col_stop)) \<Rightarrow>
          concat (map (\<lambda>r. concat (map (\<lambda>c.
              if row_start \<le> r \<and> r < row_stop \<and> col_start \<le> c \<and> c < col_stop \<and>
                 rasterize G s r c \<and> nodata src \<noteq> Some (band1 src r c)
              then [band1 src r c] else [])
            [0..int (width src) - 1])) [0..int (height src) - 1]))"

text \<open>The maximum category found in a region, 0 when there is none.\<close>

definition neighborhood_max :: "geo \<Rightarrow> dataset \<Rightarrow> shape \<Rightarrow> int" where
  "neighborhood_max G src s = fold max (covered_values G src s) 0"

text \<open>The rounded coordinate of a point feature, the key of deduplication.\<close>

definition rounded_xy :: "numlib \<Rightarrow> int \<Rightarrow> coord \<Rightarrow> real \<times> real" where
  "rounded_xy N d c = (round_to N d (fst c), round_to N d (snd c))"

text \<open>Keeping the first feature of each key: row \<open>i\<close> stays when no earlier row has its key.\<close>

definition keep_first :: "'k list \<Rightarrow> bool list" where
  "keep_first ks = map (\<lambda>i. ks ! i \<notin> set (take i ks)) [0..<length ks]"

text \<open>The number of features that resolve to the category \<open>k\<close> in an accuracy run.\<close>

definition resolved_to :: "geo \<Rightarrow> dataset \<Rightarrow> geometry list \<Rightarrow> int \<Rightarrow> nat" where
  "resolved_to G src claims k =
     length (filter (\<lambda>claim. check_flood_at_point G claim src claim_search_distance = Inr k) claims)"

text \<open>The number of features that resolve to a category greater than 0.\<close>

definition resolved_positive :: "geo \<Rightarrow> dataset \<Rightarrow> geometry list \<Rightarrow> nat" where
  "resolved_positive G src claims =
     length (filter (\<lambda>claim.
       case check_flood_at_point G claim src claim_search_distance of Inl e \<Rightarrow> False | Inr c \<Rightarrow> 0 < c) claims)"

subsection \<open>A unit grid\<close>

text \<open>The libraries on a raster whose cell in row \<open>r\<close> and column \<open>c\<close> is the unit square
  from \<open>(c, r)\<close> to \<open>(c + 1, r + 1)\<close>, in the coordinate reference of the features:
  reprojection changes nothing, and a cell belongs to a buffer when its centre does.\<close>

definition grid_geo :: geo where
  "grid_geo =
     \<lparr>to_crs = Inr,
      rowcol = (\<lambda>x y. Inr (\<lfloor>y\<rfloor>, \<lfloor>x\<rfloor>)),
      shape_bounds = (\<lambda>s. case s of
          Buffer (Point c) d \<Rightarrow>
            Inr ((\<lfloor>snd c - d\<rfloor>, \<lceil>snd c + d\<rceil>), (\<lfloor>fst c - d\<rfloor>, \<lceil>fst c + d\<rceil>))
        | Buffer (LineString cs) d \<Rightarrow> Inl ValueError
        | Buffer (Polygon cs) d \<Rightarrow> Inl ValueError),
      rasterize = (\<lambda>s r c. case s of
          Buffer (Point p) d \<Rightarrow>
            (real_of_int c + 1 / 2 - fst p)\<^sup>2 + (real_of_int r + 1 / 2 - snd p)\<^sup>2 \<le> d\<^sup>2
        | Buffer (LineString cs) d \<Rightarrow> False
        | Buffer (Polygon cs) d \<Rightarrow> False),
      interpolate = (\<lambda>cs t. case cs of
          [] \<Rightarrow> (0, 0)
        | a # rest \<Rightarrow> ((1 - t) * fst a + t * fst (last cs), (1 - t) * snd a + t * snd (last cs))),
      overlay = Inr\<rparr>"

text \<open>The same libraries with a reprojection that raises.\<close>

definition failing_geo :: geo where
  "failing_geo = grid_geo\<lparr>to_crs := (\<lambda>g. Inl CRSError)\<rparr>"

text \<open>The raster of the scenario: ten rows and ten columns of category 2, except the cell
  \<open>(5, 5)\<close>, which holds \<open>v\<close>; the sentinel is 255.\<close>

definition scenario_raster :: "int \<Rightarrow> dataset" where
  "scenario_raster v =
     \<lparr>height = 10, width = 10,
      band1 = (\<lambda>r c. if r = 5 \<and> c = 5 then v else 2),
      nodata = Some 255, closed = False\<rparr>"

definition scenario_mapper :: "int \<Rightarrow> real \<Rightarrow> mapper" where
  "scenario_mapper v distance =
     \<lparr>flood_src = scenario_raster v, flood_data = band1 (scenario_raster v),
      flood_data_shape = (10, 10), search_distance = distance\<rparr>"

text \<open>A strip of one row and three cells holding 0, 3 and 1, and its mapper with a search
  distance of a tenth of a cell.\<close>

definition strip_raster :: dataset where
  "strip_raster =
     \<lparr>height = 1, width = 3,
      band1 = (\<lambda>r c. if c = 1 then 3 else if c = 2 then 1 else 0),
      nodata = Some 255, closed = False\<rparr>"

definition strip_mapper :: mapper where
  "strip_mapper =
     \<lparr>flood_src = strip_raster, flood_data = band1 strip_raster,
      flood_data_shape = (1, 3), search_distance = 1 / 10\<rparr>"

text \<open>Rounding to \<open>d\<close> decimals, halves to even, as numpy does it on exact numbers.\<close>

definition round_half_even :: "real \<Rightarrow> int" where
  "round_half_even x =
     (if x - real_of_int \<lfloor>x\<rfloor> < 1 / 2 then \<lfloor>x\<rfloor>
      else if x - real_of_int \<lfloor>x\<rfloor> > 1 / 2 then \<lfloor>x\<rfloor> + 1
      else if even \<lfloor>x\<rfloor> then \<lfloor>x\<rfloor> else \<lfloor>x\<rfloor> + 1)"

definition exact_numlib :: numlib where
  "exact_numlib =
     \<lparr>round_to = (\<lambda>d x. if 0 \<le> d then real_of_int (round_half_even (x * 10 ^ nat d)) / 10 ^ nat d
                          else real_of_int (round_half_even (x / 10 ^ nat (- d))) * 10 ^ nat (- d))\<rparr>"

text \<open>Three claims on the scenario raster: two in the cell \<open>(0, 0)\<close> that round to the same
  coordinate, and one in the cell \<open>(5, 5)\<close>.\<close>

definition claims_example :: gdf where
  "claims_example =
     \<lparr>geometry = [Point (1 / 2, 1 / 2), Point (500001 / 1000000, 1 / 2), Point (11 / 2, 11 / 2)],
      columns = [(''claim_id'', [Str ''a'', Str ''b'', Str ''c''])]\<rparr>"


text \<open>Two claims at locations that stay apart after rounding.\<close>

definition apart_claims :: gdf where
  "apart_claims =
     \<lparr>geometry = [Point (1 / 2, 1 / 2), Point (11 / 2, 11 / 2)],
      columns = [(''claim_id'', [Str ''a'', Str ''c''])]\<rparr>"



text \<open>A collection without features.\<close>

definition no_claims :: gdf where
  "no_claims = \<lparr>geometry = [], columns = [(''claim_id'', [])]\<rparr>"

section \<open>The buffer step computes the neighbourhood maximum\<close>

lemma fold_max_Max: "fold max xs (a::int) = Max (insert a (set xs))"
proof -
  have "fold max xs a = Max (set (a # xs))" by (rule Max.set_eq_fold [symmetric])
  then show ?thesis by simp
qed

lemma set_upto_window: "set [a..b - 1] = {r. a \<le> r \<and> r < (b::int)}"
  by auto

lemma set_covered_values:
  "shape_bounds G s = Inr ((rs, re), (cs, ce)) \<Longrightarrow>
   set (covered_values G src s) =
     {v. \<exists>r c. 0 \<le> r \<and> r < int (height src) \<and> 0 \<le> c \<and> c < int (width src) \<and>
               rs \<le> r \<and> r < re \<and> cs \<le> c \<and> c < ce \<and>
               rasterize G s r c \<and> nodata src \<noteq> Some (band1 src r c) \<and> v = band1 src r c}"
  unfolding covered_values_def
  apply (auto simp: set_upto_window split: if_splits)
   apply blast
  apply force
  done

lemma mask_values:
  assumes "rasterio_mask G src s 0 = Inr md"
  shows "md \<noteq> [] \<and> insert 0 (set md) = insert 0 (set (covered_values G src s))"
proof -
  obtain rs re cs ce where b: "shape_bounds G s = Inr ((rs, re), (cs, ce))"
    using assms unfolding rasterio_mask_def by (auto split: sum.splits)
  define r0 where "r0 = max 0 rs"
  define r1 where "r1 = min (int (height src)) re"
  define c0 where "c0 = max 0 cs"
  define c1 where "c1 = min (int (width src)) ce"
  define cell where "cell = (\<lambda>r c. if rasterize G s r c \<and> nodata src \<noteq> Some (band1 src r c)
                    then band1 src r c else 0)"
  from assms b have win: "r0 < r1" "c0 < c1"
    and md: "md = concat (map (\<lambda>r. map (cell r) [c0..c1 - 1]) [r0..r1 - 1])"
    unfolding rasterio_mask_def r0_def r1_def c0_def c1_def cell_def
    by (auto simp: Let_def split: if_splits)
  have smd: "set md = {v. \<exists>r c. r0 \<le> r \<and> r < r1 \<and> c0 \<le> c \<and> c < c1 \<and> v = cell r c}"
    unfolding md by (auto simp: set_upto_window) blast
  have ne: "md \<noteq> []"
  proof -
    have "cell r0 c0 \<in> set md" unfolding smd using win by auto
    then show ?thesis by auto
  qed
  have "insert 0 (set md) = insert 0 (set (covered_values G src s))"
    unfolding smd set_covered_values [OF b] cell_def r0_def r1_def c0_def c1_def
    by (auto split: if_splits)
  with ne show ?thesis by simp
qed

lemma mask_fails_no_values:
  assumes "rasterio_mask G src s 0 = Inl e" "\<not> closed src"
  shows "covered_values G src s = []"
proof (cases "shape_bounds G s")
  case (Inl e')
  then show ?thesis by (simp add: covered_values_def)
next
  case (Inr b)
  obtain rs re cs ce where b: "shape_bounds G s = Inr ((rs, re), (cs, ce))"
    using Inr by (cases b) auto
  from assms b have "min (int (height src)) re \<le> max 0 rs \<or> min (int (width src)) ce \<le> max 0 cs"
    unfolding rasterio_mask_def by (auto simp: Let_def split: if_splits)
  then have "set (covered_values G src s) = {}"
    unfolding set_covered_values [OF b] by auto
  then show ?thesis by simp
qed


lemma check_buffer_max:
  assumes "\<not> closed src"
  shows "(case check_buffer G src s of Inl e \<Rightarrow> 0 | Inr v \<Rightarrow> v) = neighborhood_max G src s"
proof (cases "rasterio_mask G src s 0")
  case (Inl e)
  then have "covered_values G src s = []" using assms by (rule mask_fails_no_values)
  with Inl show ?thesis by (simp add: check_buffer_def neighborhood_max_def)
next
  case (Inr md)
  then have ne: "md \<noteq> []"
    and eq: "insert 0 (set md) = insert 0 (set (covered_values G src s))"
    using mask_values by blast+
  from ne obtain x xs where md: "md = x # xs" by (cases md) auto
  have m: "fold max xs x = Max (set md)" unfolding md by (simp add: fold_max_Max)
  have "max 0 (Max (set md)) = Max (insert 0 (set md))" using ne by simp
  also have "\<dots> = neighborhood_max G src s" unfolding eq neighborhood_max_def fold_max_Max ..
  finally have "max 0 (fold max xs x) = neighborhood_max G src s" using m by simp
  then show ?thesis using Inr by (auto simp: check_buffer_def md)
qed

lemma raster_ok_cell:
  assumes "raster_ok src" "0 \<le> r" "r < int (height src)" "0 \<le> c" "c < int (width src)"
  shows "(0 \<le> band1 src r c \<and> band1 src r c \<le> 4) \<or> nodata src = Some (band1 src r c)"
  using assms unfolding raster_ok_def list_all_iff by auto

lemma neighborhood_max_range:
  assumes "raster_ok src"
  shows "0 \<le> neighborhood_max G src s \<and> neighborhood_max G src s \<le> 4"
proof -
  have "\<forall>v \<in> set (covered_values G src s). 0 \<le> v \<and> v \<le> 4"
  proof (cases "shape_bounds G s")
    case (Inl e)
    then show ?thesis by (simp add: covered_values_def)
  next
    case (Inr b)
    obtain rs re cs ce where b: "shape_bounds G s = Inr ((rs, re), (cs, ce))"
      using Inr by (cases b) auto
    show ?thesis unfolding set_covered_values [OF b]
      using raster_ok_cell [OF assms] by fastforce
  qed
  then show ?thesis unfolding neighborhood_max_def fold_max_Max by auto
qed

lemma in_flood_categories_iff: "in_flood_categories v \<longleftrightarrow> 0 \<le> v \<and> v \<le> 4"
  unfolding in_flood_categories_def flood_categories_mapper_def by auto

lemma mapper_buffer_max:
  assumes "\<not> closed src" "raster_ok src"
  shows "mapper_buffer G src s = neighborhood_max G src s"
proof -
  have r: "0 \<le> neighborhood_max G src s \<and> neighborhood_max G src s \<le> 4"
    using assms(2) by (rule neighborhood_max_range)
  show ?thesis
  proof (cases "rasterio_mask G src s 0")
    case (Inl e)
    then have "covered_values G src s = []" using assms(1) by (rule mask_fails_no_values)
    with Inl show ?thesis by (simp add: mapper_buffer_def neighborhood_max_def)
  next
    case (Inr md)
    then have ne: "md \<noteq> []"
      and eq: "insert 0 (set md) = insert 0 (set (covered_values G src s))"
      using mask_values by blast+
    from ne obtain x xs where md: "md = x # xs" by (cases md) auto
    have m: "fold max xs x = Max (set md)" unfolding md by (simp add: fold_max_Max)
    have "max 0 (Max (set md)) = Max (insert 0 (set md))" using ne by simp
    also have "\<dots> = neighborhood_max G src s" unfolding eq neighborhood_max_def fold_max_Max ..
    finally have k: "max 0 (fold max xs x) = neighborhood_max G src s" using m by simp
    have "mapper_buffer G src s =
            (if 0 \<le> fold max xs x \<and> fold max xs x \<le> 4 then fold max xs x else 0)"
      using Inr by (simp add: mapper_buffer_def md in_flood_categories_iff)
    with k r show ?thesis by (auto simp: max_def split: if_splits)
  qed
qed

section \<open>Point resolution, branch by branch\<close>

lemma check_never_raises: "\<exists>category. check_flood_at_point G point src distance = Inr category"
  unfolding check_flood_at_point_def by (cases "check_flood_try G point src distance") auto

lemma check_fault_is_zero:
  "check_flood_try G point src distance = Inl e \<Longrightarrow>
   check_flood_at_point G point src distance = Inr 0"
  unfolding check_flood_at_point_def by simp

lemma check_falls_back:
  assumes "to_crs G point = Inr pg" "xy pg = Inr (x, y)" "rowcol G x y = Inr (row, col)"
    and "\<not> closed src"
    and "\<not> (0 \<le> row \<and> row < int (height src) \<and> 0 \<le> col \<and> col < int (width src)) \<or>
         band1 src row col \<le> 0"
  shows "check_flood_at_point G point src distance = Inr (neighborhood_max G src (Buffer pg distance))"
proof -
  have "check_flood_try G point src distance = check_buffer G src (Buffer pg distance)"
    using assms by (auto simp: check_flood_try_def read_cell_def Let_def)
  then have "check_flood_at_point G point src distance =
      Inr (case check_buffer G src (Buffer pg distance) of Inl e \<Rightarrow> 0 | Inr v \<Rightarrow> v)"
    unfolding check_flood_at_point_def by (simp split: sum.splits)
  then show ?thesis using check_buffer_max [OF assms(4)] by simp
qed

lemma mapper_falls_back:
  assumes "to_crs G point = Inr pg" "xy pg = Inr (x, y)" "rowcol G x y = Inr (row, col)"
    and "load_flood_map src distance = Inr self"
    and "raster_ok src"
    and "\<not> (0 \<le> row \<and> row < int (height src) \<and> 0 \<le> col \<and> col < int (width src)) \<or>
         \<not> in_flood_categories (band1 src row col)"
  shows "get_flood_category_at_point G self point =
         Inr (neighborhood_max G src (Buffer pg distance))"
proof -
  from assms(4) have nc: "\<not> closed src"
    and self: "self = \<lparr>flood_src = src, flood_data = band1 src,
                flood_data_shape = (height src, width src), search_distance = distance\<rparr>"
    by (auto simp: load_flood_map_def split: if_splits)
  have "get_flood_category_at_point G self point = Inr (mapper_buffer G src (Buffer pg distance))"
    using assms(1,2,3,6) unfolding self by (auto simp: get_flood_category_at_point_def)
  then show ?thesis using mapper_buffer_max [OF nc assms(5)] by simp
qed

lemma mapper_exact:
  assumes "to_crs G point = Inr pg" "xy pg = Inr (x, y)" "rowcol G x y = Inr (row, col)"
    and "load_flood_map src distance = Inr self"
    and "0 \<le> row" "row < int (height src)" "0 \<le> col" "col < int (width src)"
    and "in_flood_categories (band1 src row col)"
  shows "get_flood_category_at_point G self point = Inr (band1 src row col)"
proof -
  from assms(4) have
    self: "self = \<lparr>flood_src = src, flood_data = band1 src,
                flood_data_shape = (height src, width src), search_distance = distance\<rparr>"
    by (auto simp: load_flood_map_def split: if_splits)
  show ?thesis using assms(1,2,3,5-) unfolding self
    by (simp add: get_flood_category_at_point_def)
qed

lemma check_exact:
  assumes "to_crs G point = Inr pg" "xy pg = Inr (x, y)" "rowcol G x y = Inr (row, col)"
    and "\<not> closed src"
    and "0 \<le> row" "row < int (height src)" "0 \<le> col" "col < int (width src)"
    and "0 < band1 src row col"
  shows "check_flood_at_point G point src distance = Inr (band1 src row col)"
  using assms by (simp add: check_flood_at_point_def check_flood_try_def read_cell_def)

lemma mapper_category_range:
  assumes "get_flood_category_at_point G self point = Inr category"
  shows "0 \<le> category \<and> category \<le> 4"
proof -
  have b: "0 \<le> mapper_buffer G src s \<and> mapper_buffer G src s \<le> 4" for src s
    unfolding mapper_buffer_def
    by (auto simp: in_flood_categories_iff split: sum.splits)
  show ?thesis using assms b
    unfolding get_flood_category_at_point_def
    by (auto simp: Let_def in_flood_categories_iff split: sum.splits if_splits prod.splits)
qed

section \<open>Exact hits, fallbacks and faults of the two resolvers\<close>

lemma scenario_loads: "load_flood_map (scenario_raster v) d = Inr (scenario_mapper v d)"
  by (simp add: load_flood_map_def scenario_raster_def scenario_mapper_def)

lemma scenario_raster_ok: "(0 \<le> v \<and> v \<le> 4) \<or> v = 255 \<Longrightarrow> raster_ok (scenario_raster v)"
  by (auto simp: raster_ok_def scenario_raster_def list_all_iff)

lemma scenario_centre_max:
  "v = 0 \<or> v = 255 \<Longrightarrow> neighborhood_max grid_geo (scenario_raster v) (Buffer (Point (11 / 2, 11 / 2)) (3 / 2)) = 2"
  by (auto simp: neighborhood_max_def covered_values_def grid_geo_def scenario_raster_def upto_rec1 power2_eq_square)

text \<open>Claim C1, as the code has it. Let the point be reprojected and located at the cell
  \<open>(row, col)\<close> of a readable raster that satisfies its invariant. When the cell is out
  of bounds, both resolvers return the maximum category found in the buffer, 0 when there
  is none. When the cell holds a value that is not positive (an explicit no-flood cell),
  \<^verbatim>\<open>check_flood_at_point\<close> does the same. When the cell holds a value outside 0 to 4
  (the sentinel), \<^verbatim>\<open>get_flood_category_at_point\<close> does the same. On an explicit
  no-flood cell \<^verbatim>\<open>get_flood_category_at_point\<close> returns 0 without looking at the buffer.\<close>

theorem fallback_when_no_exact_hit:
  assumes "to_crs G point = Inr pg" and "xy pg = Inr (x, y)" and "rowcol G x y = Inr (row, col)"
    and "load_flood_map src distance = Inr self" and "raster_ok src"
  shows "(\<not> (0 \<le> row \<and> row < int (height src) \<and> 0 \<le> col \<and> col < int (width src)) \<or>
          band1 src row col \<le> 0 \<longrightarrow>
            check_flood_at_point G point src distance =
              Inr (neighborhood_max G src (Buffer pg distance)))
       \<and> (\<not> (0 \<le> row \<and> row < int (height src) \<and> 0 \<le> col \<and> col < int (width src)) \<or>
          \<not> in_flood_categories (band1 src row col) \<longrightarrow>
            get_flood_category_at_point G self point =
              Inr (neighborhood_max G src (Buffer pg distance)))
       \<and> (0 \<le> row \<and> row < int (height src) \<and> 0 \<le> col \<and> col < int (width src) \<and>
          band1 src row col = 0 \<longrightarrow>
            get_flood_category_at_point G self point = Inr 0)"
proof -
  from assms(4) have nc: "\<not> closed src"
    by (auto simp: load_flood_map_def split: if_splits)
  have zero: "in_flood_categories 0" by (simp add: in_flood_categories_iff)
  show ?thesis
    using check_falls_back [OF assms(1,2,3) nc, of distance]
      mapper_falls_back [OF assms(1,2,3,4,5)]
      mapper_exact [OF assms(1,2,3,4)] zero
    by auto
qed

text \<open>The scenario: on the sentinel cell \<open>(5, 5)\<close> among cells of category 2, the mapper
  resolves to 2; on a no-flood cell there, the analyzer resolves to 2 and the mapper to 0.\<close>

theorem fallback_when_no_exact_hit_witness:
  "get_flood_category_at_point grid_geo (scenario_mapper 255 (3 / 2)) (Point (11 / 2, 11 / 2)) = Inr 2
   \<and> check_flood_at_point grid_geo (Point (11 / 2, 11 / 2)) (scenario_raster 0) (3 / 2) = Inr 2
   \<and> get_flood_category_at_point grid_geo (scenario_mapper 0 (3 / 2)) (Point (11 / 2, 11 / 2)) = Inr 0"
proof -
  have c: "to_crs grid_geo (Point (11 / 2, 11 / 2)) = Inr (Point (11 / 2, 11 / 2))"
    by (simp add: grid_geo_def)
  have p: "xy (Point (11 / 2, 11 / 2)) = Inr (11 / 2, 11 / 2)" by simp
  have rc: "rowcol grid_geo (11 / 2) (11 / 2) = Inr (5, 5)" by (simp add: grid_geo_def)
  have ok: "raster_ok (scenario_raster 255)" "raster_ok (scenario_raster 0)"
    by (simp_all add: scenario_raster_ok)
  have m: "neighborhood_max grid_geo (scenario_raster 255) (Buffer (Point (11 / 2, 11 / 2)) (3 / 2)) = 2"
    "neighborhood_max grid_geo (scenario_raster 0) (Buffer (Point (11 / 2, 11 / 2)) (3 / 2)) = 2"
    by (simp_all add: scenario_centre_max)
  have a: "get_flood_category_at_point grid_geo (scenario_mapper 255 (3 / 2)) (Point (11 / 2, 11 / 2)) = Inr 2"
    using fallback_when_no_exact_hit [OF c p rc scenario_loads ok(1)] m(1)
    by (simp add: scenario_raster_def in_flood_categories_iff)
  have b: "check_flood_at_point grid_geo (Point (11 / 2, 11 / 2)) (scenario_raster 0) (3 / 2) = Inr 2
     \<and> get_flood_category_at_point grid_geo (scenario_mapper 0 (3 / 2)) (Point (11 / 2, 11 / 2)) = Inr 0"
    using fallback_when_no_exact_hit [OF c p rc scenario_loads ok(2)] m(2)
    by (simp add: scenario_raster_def)
  from a b show ?thesis by simp
qed

text \<open>Claim C1 as stated fails: on a no-flood cell whose buffer covers cells of category
  2, the mapper returns 0, not the maximum 2 found in the buffer.\<close>

theorem mapper_skips_fallback_on_no_flood_cell:
  "get_flood_category_at_point grid_geo (scenario_mapper 0 (3 / 2)) (Point (11 / 2, 11 / 2)) = Inr 0
   \<and> neighborhood_max grid_geo (scenario_raster 0) (Buffer (Point (11 / 2, 11 / 2)) (3 / 2)) = 2"
  by (simp add: scenario_centre_max)
     (simp add: get_flood_category_at_point_def scenario_mapper_def grid_geo_def
        scenario_raster_def in_flood_categories_iff)

text \<open>Claim C4. A point located in bounds on a readable cell that holds a positive value
  other than the sentinel resolves to that value in both resolvers, whatever the search
  distance: for two distances the results are the same.\<close>

theorem exact_hit_priority:
  assumes "to_crs G point = Inr pg" and "xy pg = Inr (x, y)" and "rowcol G x y = Inr (row, col)"
    and "load_flood_map src distance = Inr self"
    and "load_flood_map src distance' = Inr self'"
    and "raster_ok src"
    and "0 \<le> row" and "row < int (height src)" and "0 \<le> col" and "col < int (width src)"
    and "nodata src \<noteq> Some (band1 src row col)"
    and "0 < band1 src row col"
  shows "check_flood_at_point G point src distance = Inr (band1 src row col)
       \<and> get_flood_category_at_point G self point = Inr (band1 src row col)
       \<and> check_flood_at_point G point src distance' = check_flood_at_point G point src distance
       \<and> get_flood_category_at_point G self' point = get_flood_category_at_point G self point"
proof -
  from assms(4) have nc: "\<not> closed src"
    by (auto simp: load_flood_map_def split: if_splits)
  have cat: "in_flood_categories (band1 src row col)"
    using raster_ok_cell [OF assms(6,7,8,9,10)] assms(11)
    by (auto simp: in_flood_categories_iff)
  have "check_flood_at_point G point src d = Inr (band1 src row col)" for d
    using assms(1,2,3) nc assms(7,8,9,10,12) by (rule check_exact)
  moreover have "get_flood_category_at_point G self point = Inr (band1 src row col)"
    using assms(1,2,3,4,7,8,9,10) cat by (rule mapper_exact)
  moreover have "get_flood_category_at_point G self' point = Inr (band1 src row col)"
    using assms(1,2,3,5,7,8,9,10) cat by (rule mapper_exact)
  ultimately show ?thesis by simp
qed

text \<open>The scenario: the point in the cell \<open>(0, 0)\<close> resolves to 2 under the distances 1 and 3.\<close>

theorem exact_hit_priority_witness:
  "check_flood_at_point grid_geo (Point (1 / 2, 1 / 2)) (scenario_raster 255) 1 = Inr 2
   \<and> get_flood_category_at_point grid_geo (scenario_mapper 255 1) (Point (1 / 2, 1 / 2)) = Inr 2
   \<and> check_flood_at_point grid_geo (Point (1 / 2, 1 / 2)) (scenario_raster 255) 3 = Inr 2
   \<and> get_flood_category_at_point grid_geo (scenario_mapper 255 3) (Point (1 / 2, 1 / 2)) = Inr 2"
proof -
  have c: "to_crs grid_geo (Point (1 / 2, 1 / 2)) = Inr (Point (1 / 2, 1 / 2))"
    by (simp add: grid_geo_def)
  have p: "xy (Point (1 / 2, 1 / 2)) = Inr (1 / 2, 1 / 2)" by simp
  have rc: "rowcol grid_geo (1 / 2) (1 / 2) = Inr (0, 0)" by (simp add: grid_geo_def)
  have ok: "raster_ok (scenario_raster 255)" by (simp add: scenario_raster_ok)
  have b: "(0::int) \<le> 0" "0 < int (height (scenario_raster 255))"
    "0 < int (width (scenario_raster 255))"
    "nodata (scenario_raster 255) \<noteq> Some (band1 (scenario_raster 255) 0 0)"
    "0 < band1 (scenario_raster 255) 0 0"
    by (simp_all add: scenario_raster_def)
  show ?thesis
    using exact_hit_priority [OF c p rc scenario_loads scenario_loads ok b(1,2,1,3,4,5), of 1 3]
    by (simp add: scenario_raster_def)
qed

text \<open>Claim C10, as the code has it. On a readable raster that satisfies its invariant,
  the two resolvers return the same category for a located point whose cell is out of
  bounds or holds a positive value other than the sentinel. On an explicit no-flood cell
  they part: the analyzer returns the maximum found in the buffer, the mapper 0.\<close>

theorem resolvers_agree_off_no_flood_cells:
  assumes "to_crs G point = Inr pg" and "xy pg = Inr (x, y)" and "rowcol G x y = Inr (row, col)"
    and "load_flood_map src distance = Inr self" and "raster_ok src"
  shows "(\<not> (0 \<le> row \<and> row < int (height src) \<and> 0 \<le> col \<and> col < int (width src)) \<or>
          (0 < band1 src row col \<and> nodata src \<noteq> Some (band1 src row col)) \<longrightarrow>
            check_flood_at_point G point src distance = get_flood_category_at_point G self point)
       \<and> (0 \<le> row \<and> row < int (height src) \<and> 0 \<le> col \<and> col < int (width src) \<and>
          band1 src row col = 0 \<longrightarrow>
            check_flood_at_point G point src distance =
              Inr (neighborhood_max G src (Buffer pg distance)) \<and>
            get_flood_category_at_point G self point = Inr 0)"
proof -
  from assms(4) have nc: "\<not> closed src"
    by (auto simp: load_flood_map_def split: if_splits)
  let ?inb = "0 \<le> row \<and> row < int (height src) \<and> 0 \<le> col \<and> col < int (width src)"
  have out: "check_flood_at_point G point src distance = get_flood_category_at_point G self point"
    if "\<not> ?inb"
    using check_falls_back [OF assms(1,2,3) nc, of distance]
      mapper_falls_back [OF assms(1,2,3,4,5)] that by simp
  have hit: "check_flood_at_point G point src distance = get_flood_category_at_point G self point"
    if "?inb" and "0 < band1 src row col" and "nodata src \<noteq> Some (band1 src row col)"
  proof -
    have cat: "in_flood_categories (band1 src row col)"
      using raster_ok_cell [OF assms(5), of row col] that
      by (auto simp: in_flood_categories_iff)
    show ?thesis
      using check_exact [OF assms(1,2,3) nc, of distance] mapper_exact [OF assms(1,2,3,4)] that cat
      by simp
  qed
  have zero: "check_flood_at_point G point src distance =
                Inr (neighborhood_max G src (Buffer pg distance)) \<and>
              get_flood_category_at_point G self point = Inr 0"
    if "?inb" and "band1 src row col = 0"
    using check_falls_back [OF assms(1,2,3) nc, of distance] mapper_exact [OF assms(1,2,3,4)] that
    by (simp add: in_flood_categories_iff)
  from out hit zero show ?thesis by blast
qed

text \<open>The scenario: both resolve the point of the cell \<open>(0, 0)\<close> to 2, and on a no-flood
  cell \<open>(5, 5)\<close> the analyzer resolves to 2 and the mapper to 0.\<close>

theorem resolvers_agree_off_no_flood_cells_witness:
  "check_flood_at_point grid_geo (Point (1 / 2, 1 / 2)) (scenario_raster 0) (3 / 2) =
     get_flood_category_at_point grid_geo (scenario_mapper 0 (3 / 2)) (Point (1 / 2, 1 / 2))
   \<and> check_flood_at_point grid_geo (Point (11 / 2, 11 / 2)) (scenario_raster 0) (3 / 2) = Inr 2
   \<and> get_flood_category_at_point grid_geo (scenario_mapper 0 (3 / 2)) (Point (11 / 2, 11 / 2)) = Inr 0"
proof -
  have ok: "raster_ok (scenario_raster 0)" by (simp add: scenario_raster_ok)
  have c: "to_crs grid_geo (Point (1 / 2, 1 / 2)) = Inr (Point (1 / 2, 1 / 2))"
    by (simp add: grid_geo_def)
  have p: "xy (Point (1 / 2, 1 / 2)) = Inr (1 / 2, 1 / 2)" by simp
  have rc: "rowcol grid_geo (1 / 2) (1 / 2) = Inr (0, 0)" by (simp add: grid_geo_def)
  have c': "to_crs grid_geo (Point (11 / 2, 11 / 2)) = Inr (Point (11 / 2, 11 / 2))"
    by (simp add: grid_geo_def)
  have p': "xy (Point (11 / 2, 11 / 2)) = Inr (11 / 2, 11 / 2)" by simp
  have rc': "rowcol grid_geo (11 / 2) (11 / 2) = Inr (5, 5)" by (simp add: grid_geo_def)
  have a: "check_flood_at_point grid_geo (Point (1 / 2, 1 / 2)) (scenario_raster 0) (3 / 2) =
     get_flood_category_at_point grid_geo (scenario_mapper 0 (3 / 2)) (Point (1 / 2, 1 / 2))"
    using resolvers_agree_off_no_flood_cells [OF c p rc scenario_loads [of 0 "3 / 2"] ok]
    by (simp add: scenario_raster_def)
  have b: "check_flood_at_point grid_geo (Point (11 / 2, 11 / 2)) (scenario_raster 0) (3 / 2) = Inr 2
   \<and> get_flood_category_at_point grid_geo (scenario_mapper 0 (3 / 2)) (Point (11 / 2, 11 / 2)) = Inr 0"
    using resolvers_agree_off_no_flood_cells [OF c' p' rc' scenario_loads [of 0 "3 / 2"] ok]
      scenario_centre_max [of 0]
    by (simp add: scenario_raster_def)
  from a b show ?thesis by simp
qed

text \<open>Claim C10 as stated fails: run against the same raster with the same distance, the
  analyzer resolves the point on the no-flood cell \<open>(5, 5)\<close> to 2 and the mapper to 0.\<close>

theorem resolvers_differ_on_no_flood_cell:
  "load_flood_map (scenario_raster 0) (3 / 2) = Inr (scenario_mapper 0 (3 / 2))
   \<and> check_flood_at_point grid_geo (Point (11 / 2, 11 / 2)) (scenario_raster 0) (3 / 2) = Inr 2
   \<and> get_flood_category_at_point grid_geo (scenario_mapper 0 (3 / 2)) (Point (11 / 2, 11 / 2)) = Inr 0"
  by (simp add: scenario_loads)
     (simp add: check_flood_at_point_def check_flood_try_def check_buffer_def rasterio_mask_def
        read_cell_def get_flood_category_at_point_def scenario_mapper_def grid_geo_def
        scenario_raster_def in_flood_categories_iff upto_rec1 power2_eq_square)

text \<open>Claim C2 fails on the mapper: a reprojection that raises is outside the
  \<^verbatim>\<open>try\<close> block of \<^verbatim>\<open>get_flood_category_at_point\<close> and reaches the caller, where
  \<^verbatim>\<open>check_flood_at_point\<close> returns 0.\<close>

theorem mapper_propagates_reprojection_fault:
  "get_flood_category_at_point failing_geo (scenario_mapper 255 1) (Point (1 / 2, 1 / 2)) =
     Inl CRSError
   \<and> check_flood_at_point failing_geo (Point (1 / 2, 1 / 2)) (scenario_raster 255) 1 = Inr 0"
  by (simp add: get_flood_category_at_point_def check_flood_at_point_def check_flood_try_def
        failing_geo_def grid_geo_def)

text \<open>Claim C3 fails on the analyzer: a point on the sentinel cell \<open>(5, 5)\<close> resolves to the
  sentinel 255, which is no category.\<close>

theorem check_returns_sentinel:
  "check_flood_at_point grid_geo (Point (11 / 2, 11 / 2)) (scenario_raster 255) (3 / 2) = Inr 255"
  by (simp add: check_flood_at_point_def check_flood_try_def read_cell_def grid_geo_def
        scenario_raster_def)

section \<open>Line resolution\<close>

text \<open>Claim C5. A line with vertices is sampled at its first vertex, at the fraction one
  half of its length and at its last vertex; when the mapper resolves the three points
  to categories, the line resolves to their maximum. A geometry that is no line resolves
  to 0.\<close>

theorem line_resolves_to_max_of_three_samples:
  "(get_flood_category_at_point G self (Point v) = Inr a \<and>
    get_flood_category_at_point G self (Point (interpolate G (v # vs) (1 / 2))) = Inr b \<and>
    get_flood_category_at_point G self (Point (last (v # vs))) = Inr c \<longrightarrow>
      get_max_flood_for_line G self (LineString (v # vs)) = Inr (max a (max b c)))
   \<and> get_max_flood_for_line G self (Point p) = Inr 0
   \<and> get_max_flood_for_line G self (Polygon ps) = Inr 0"
  by (auto simp: get_max_flood_for_line_def max.commute max.left_commute)

text \<open>A straight line over the strip, whose samples resolve to 0, 3 and 1, resolves to 3.\<close>

theorem line_resolves_to_max_of_three_samples_witness:
  "get_max_flood_for_line grid_geo strip_mapper (LineString [(1 / 2, 1 / 2), (5 / 2, 1 / 2)]) = Inr 3"
proof -
  have a: "get_flood_category_at_point grid_geo strip_mapper (Point (1 / 2, 1 / 2)) = Inr 0"
    by (simp add: get_flood_category_at_point_def strip_mapper_def strip_raster_def grid_geo_def
          in_flood_categories_iff)
  have m: "interpolate grid_geo [(1 / 2, 1 / 2), (5 / 2, 1 / 2)] (1 / 2) = (3 / 2, 1 / 2)"
    by (simp add: grid_geo_def)
  have b: "get_flood_category_at_point grid_geo strip_mapper
             (Point (interpolate grid_geo [(1 / 2, 1 / 2), (5 / 2, 1 / 2)] (1 / 2))) = Inr 3"
    unfolding m
    by (simp add: get_flood_category_at_point_def strip_mapper_def strip_raster_def grid_geo_def
          in_flood_categories_iff)
  have c: "get_flood_category_at_point grid_geo strip_mapper
             (Point (last [(1 / 2, 1 / 2), (5 / 2, 1 / 2)])) = Inr 1"
    by (simp add: get_flood_category_at_point_def strip_mapper_def strip_raster_def grid_geo_def
          in_flood_categories_iff)
  show ?thesis
    using line_resolves_to_max_of_three_samples
      [of grid_geo strip_mapper "(1 / 2, 1 / 2)" 0 "[(5 / 2, 1 / 2)]" 3 1] a b c
    by simp
qed

section \<open>Deduplication keeps the first feature of each rounded coordinate\<close>

lemma log10_default: "log 10 (1 / 100000) = - 5"
proof -
  have "log 10 ((10::real) ^ 5) = 5" by (subst log_pow_cancel) simp_all
  then have "log 10 (100000::real) = 5" by simp
  then show ?thesis by (simp add: log_divide)
qed

lemma decimals_of_default: "decimals_of (1 / 100000) = Inr 5"
  by (simp add: decimals_of_def py_int_def log10_default)


lemma collect_point_x: "collect point_x (map Point cs) = Inr (map fst cs)"
  by (induction cs) auto

lemma collect_point_y: "collect point_y (map Point cs) = Inr (map snd cs)"
  by (induction cs) auto

lemma duplicated_nth:
  "duplicated seen ks = map (\<lambda>i. ks ! i \<in> set seen \<union> set (take i ks)) [0..<length ks]"
proof (induction ks arbitrary: seen)
  case Nil
  then show ?case by simp
next
  case (Cons k ks)
  have "map (\<lambda>i. (k # ks) ! i \<in> set seen \<union> set (take i (k # ks))) [0..<length (k # ks)] =
        (k \<in> set seen) # map (\<lambda>i. ks ! i \<in> set (k # seen) \<union> set (take i ks)) [0..<length ks]"
    by (auto simp add: upt_conv_Cons map_Suc_upt [symmetric] simp del: upt_Suc)
  then show ?case by (simp only: duplicated.simps Cons.IH [of "k # seen"])
qed

lemma not_duplicated_keep_first: "map Not (duplicated [] ks) = keep_first ks"
  by (simp add: duplicated_nth keep_first_def)

lemma keep_first_map_inj:
  assumes "inj h"
  shows "keep_first (map h ks) = keep_first ks"
proof -
  have "h (ks ! i) \<in> h ` set (take i ks) \<longleftrightarrow> ks ! i \<in> set (take i ks)" for i
    using assms by (auto dest: injD)
  then show ?thesis by (simp add: keep_first_def take_map)
qed

lemma length_keep_first [simp]: "length (keep_first ks) = length ks"
  by (simp add: keep_first_def)




lemma take_rows_Nil [simp]: "take_rows keep [] = []" "take_rows [] xs = []"
  by (simp_all add: take_rows_def)

lemma take_rows_Cons [simp]:
  "take_rows (b # bs) (x # xs) = (if b then x # take_rows bs xs else take_rows bs xs)"
  by (simp add: take_rows_def)

lemma take_rows_none: "take_rows (replicate n False) xs = []"
proof (induction xs arbitrary: n)
  case Nil
  then show ?case by (simp add: take_rows_def)
next
  case (Cons x xs)
  then show ?case by (cases n) (simp_all add: take_rows_def)
qed


lemma geometry_set_column [simp]: "geometry (set_column name vs f) = geometry f"
  by (simp add: set_column_def)

lemma map_of_replace_same:
  "name \<in> set (map fst cols) \<Longrightarrow>
   map_of (map (\<lambda>col. if fst col = name then (name, vs) else col) cols) name = Some vs"
  by (induction cols) auto

lemma map_of_replace_other:
  "name' \<noteq> name \<Longrightarrow>
   map_of (map (\<lambda>col. if fst col = name then (name, vs) else col) cols) name' = map_of cols name'"
  by (induction cols) auto

lemma map_of_append_same:
  "name \<notin> set (map fst cols) \<Longrightarrow> map_of (cols @ [(name, vs)]) name = Some vs"
  by (induction cols) auto

lemma map_of_append_other:
  "name' \<noteq> name \<Longrightarrow> map_of (cols @ [(name, vs)]) name' = map_of cols name'"
  by (induction cols) auto

lemma names_replace:
  "map fst (map (\<lambda>col. if fst col = name then (name, vs) else col) cols) = map fst cols"
  by (induction cols) auto

lemma get_column_set_same: "get_column (set_column name vs f) name = Inr vs"
proof (cases "name \<in> set (map fst (columns f))")
  case True
  then show ?thesis
    by (simp add: get_column_def set_column_def map_of_replace_same del: set_map)
next
  case False
  then show ?thesis
    by (simp add: get_column_def set_column_def map_of_append_same del: set_map map_of_append)
qed

lemma get_column_set_other:
  "name' \<noteq> name \<Longrightarrow> get_column (set_column name vs f) name' = get_column f name'"
  by (simp add: get_column_def set_column_def map_of_replace_other map_of_append_other
      del: map_of_append)

lemma names_set_column:
  "set (map fst (columns (set_column name vs f))) = insert name (set (map fst (columns f)))"
proof (cases "name \<in> set (map fst (columns f))")
  case True
  then have "columns (set_column name vs f) =
      map (\<lambda>col. if fst col = name then (name, vs) else col) (columns f)"
    by (simp add: set_column_def del: set_map)
  then have "map fst (columns (set_column name vs f)) = map fst (columns f)"
    by (simp only: names_replace)
  then show ?thesis using True by auto
next
  case False
  then show ?thesis by (simp add: set_column_def)
qed

lemma strip_set_column:
  "name \<in> S \<Longrightarrow>
   filter (\<lambda>col. fst col \<notin> S) (columns (set_column name vs f)) =
   filter (\<lambda>col. fst col \<notin> S) (columns f)"
proof -
  assume n: "name \<in> S"
  have "filter (\<lambda>col. fst col \<notin> S) (map (\<lambda>col. if fst col = name then (name, vs) else col) cols) =
        filter (\<lambda>col. fst col \<notin> S) cols" for cols
    using n by (induction cols) auto
  then show ?thesis using n by (simp add: set_column_def)
qed

lemma map_nth_apply: "map (\<lambda>i. g (xs ! i)) [0..<length xs] = map g xs"
  by (intro nth_equalityI) simp_all

lemma columns_select_rows_names [simp]:
  "map fst (columns (select_rows keep f)) = map fst (columns f)"
  by (simp add: select_rows_def comp_def)

lemma drop_columns_select_rows:
  assumes "list_all (\<lambda>name. name \<in> set (map fst (columns f))) names"
  shows "drop_columns (select_rows keep f) names =
         Inr (select_rows keep (f\<lparr>columns := filter (\<lambda>col. fst col \<notin> set names) (columns f)\<rparr>))"
proof -
  have "filter (\<lambda>col. fst col \<notin> set names) (map (\<lambda>col. (fst col, take_rows keep (snd col))) cols) =
        map (\<lambda>col. (fst col, take_rows keep (snd col))) (filter (\<lambda>col. fst col \<notin> set names) cols)"
    for cols :: "(string \<times> val list) list"
    by (induction cols) auto
  then show ?thesis using assms
    unfolding drop_columns_def columns_select_rows_names
    by (simp add: select_rows_def)
qed

lemma rounded_keys:
  assumes "geometry f = map Point cs"
  shows "row_keys (set_column ''rounded_y'' (map (\<lambda>y. Num (round_to N d y)) (map snd cs))
                    (set_column ''rounded_x'' (map (\<lambda>x. Num (round_to N d x)) (map fst cs)) f))
           [''rounded_x'', ''rounded_y''] =
         Inr (map (\<lambda>k. [Num (fst k), Num (snd k)]) (map (rounded_xy N d) cs))"
proof -
  let ?X = "map (\<lambda>x. Num (round_to N d x)) (map fst cs)"
  let ?Y = "map (\<lambda>y. Num (round_to N d y)) (map snd cs)"
  let ?f2 = "set_column ''rounded_y'' ?Y (set_column ''rounded_x'' ?X f)"
  have x: "get_column ?f2 ''rounded_x'' = Inr ?X"
    by (simp add: get_column_set_other get_column_set_same)
  have y: "get_column ?f2 ''rounded_y'' = Inr ?Y"
    by (simp add: get_column_set_same)
  have "map (\<lambda>i. [?X ! i, ?Y ! i]) [0..<length cs] =
        map (\<lambda>k. [Num (fst k), Num (snd k)]) (map (rounded_xy N d) cs)"
    by (intro nth_equalityI) (simp_all add: rounded_xy_def)
  then show ?thesis using assms x y by (simp add: row_keys_def)
qed

lemma filter_unique_features_result:
  assumes "decimals_of precision = Inr d" and "geometry f = map Point cs"
  shows "filter_unique_features N f precision =
    Inr \<lparr>claims_gdf_after =
           set_column ''rounded_y'' (map (\<lambda>y. Num (round_to N d y)) (map snd cs))
             (set_column ''rounded_x'' (map (\<lambda>x. Num (round_to N d x)) (map fst cs)) f),
         unique_claims =
           select_rows (keep_first (map (rounded_xy N d) cs))
             (f\<lparr>columns := filter (\<lambda>col. fst col \<notin> set [''rounded_x'', ''rounded_y'']) (columns f)\<rparr>),
         filtered = int (length cs) -
           int (length (take_rows (keep_first (map (rounded_xy N d) cs)) (geometry f)))\<rparr>"
proof -
  let ?X = "map (\<lambda>x. Num (round_to N d x)) (map fst cs)"
  let ?Y = "map (\<lambda>y. Num (round_to N d y)) (map snd cs)"
  let ?f2 = "set_column ''rounded_y'' ?Y (set_column ''rounded_x'' ?X f)"
  let ?keep = "keep_first (map (rounded_xy N d) cs)"
  have inj: "inj (\<lambda>k :: real \<times> real. [Num (fst k), Num (snd k)])"
    by (auto simp: inj_def prod_eq_iff)
  have dd: "drop_duplicates ?f2 [''rounded_x'', ''rounded_y''] = Inr (select_rows ?keep ?f2)"
    unfolding drop_duplicates_def rounded_keys [OF assms(2)]
    by (simp only: sum.case not_duplicated_keep_first keep_first_map_inj [OF inj])
  have present: "list_all (\<lambda>name. name \<in> set (map fst (columns ?f2))) [''rounded_x'', ''rounded_y'']"
    by (simp add: names_set_column del: set_map)
  have strip: "filter (\<lambda>col. fst col \<notin> set [''rounded_x'', ''rounded_y'']) (columns ?f2) =
               filter (\<lambda>col. fst col \<notin> set [''rounded_x'', ''rounded_y'']) (columns f)"
  proof -
    have x: "''rounded_x'' \<in> set [''rounded_x'', ''rounded_y'']"
      and y: "''rounded_y'' \<in> set [''rounded_x'', ''rounded_y'']" by simp_all
    show ?thesis by (simp only: strip_set_column [OF y] strip_set_column [OF x])
  qed
  have same: "?f2\<lparr>columns := filter (\<lambda>col. fst col \<notin> set [''rounded_x'', ''rounded_y'']) (columns f)\<rparr> =
              f\<lparr>columns := filter (\<lambda>col. fst col \<notin> set [''rounded_x'', ''rounded_y'']) (columns f)\<rparr>"
    by (simp add: set_column_def)
  have dc: "drop_columns (select_rows ?keep ?f2) [''rounded_x'', ''rounded_y''] =
            Inr (select_rows ?keep
              (f\<lparr>columns := filter (\<lambda>col. fst col \<notin> set [''rounded_x'', ''rounded_y'']) (columns f)\<rparr>))"
    unfolding drop_columns_select_rows [OF present] strip same ..
  show ?thesis
    unfolding filter_unique_features_def
    by (simp only: assms geometry_set_column collect_point_x collect_point_y sum.case Let_def dd dc)
       (simp add: select_rows_def assms(2))
qed



lemma take_rows_first_only: "take_rows (True # replicate n False) (x # xs) = [x]"
  by (simp add: take_rows_none)


lemma round_to_exact_half: "round_to exact_numlib 5 (1 / 2) = 1 / 2"
  by (simp add: exact_numlib_def round_half_even_def)

lemma round_to_exact_near_half: "round_to exact_numlib 5 (500001 / 1000000) = 1 / 2"
  by (simp add: exact_numlib_def round_half_even_def)

lemma round_to_exact_eleven_halves: "round_to exact_numlib 5 (11 / 2) = 11 / 2"
  by (simp add: exact_numlib_def round_half_even_def)

lemmas round_to_exact = round_to_exact_half round_to_exact_near_half round_to_exact_eleven_halves

lemma keep_first_3: "keep_first [a, b, c] = [True, b \<noteq> a, c \<noteq> a \<and> c \<noteq> b]"
  by (auto simp: keep_first_def upt_rec numeral_3_eq_3)

lemma keep_first_2: "keep_first [a, b] = [True, b \<noteq> a]"
  by (auto simp: keep_first_def upt_rec numeral_2_eq_2)

lemma precision_as_power:
  assumes "0 < precision"
  shows "precision = 10 powr (- (- log 10 precision))"
  using assms by simp








lemma dedup_adds_columns_to_input:
  assumes "filter_unique_features N f precision = Inr out"
  shows "''rounded_x'' \<in> set (map fst (columns (claims_gdf_after out)))
       \<and> ''rounded_y'' \<in> set (map fst (columns (claims_gdf_after out)))"
proof -
  obtain xs dx ys dy where
    "claims_gdf_after out =
       set_column ''rounded_y'' (map (\<lambda>y. Num (round_to N dy y)) ys)
         (set_column ''rounded_x'' (map (\<lambda>x. Num (round_to N dx x)) xs) f)"
    using assms unfolding filter_unique_features_def
    by (auto simp: Let_def split: sum.splits)
  then show ?thesis by (simp add: names_set_column del: set_map)
qed

text \<open>Claim C9 fails: after the call the caller's collection has two more columns, which
  the function drops from the returned copy only.\<close>

theorem dedup_leaves_columns_on_input:
  "map fst (columns claims_example) = [''claim_id'']
   \<and> map_sum id (\<lambda>out. map fst (columns (claims_gdf_after out)))
       (filter_unique_features exact_numlib claims_example (1 / 100000)) =
     Inr [''claim_id'', ''rounded_x'', ''rounded_y'']"
proof -
  have g1: "geometry claims_example =
      map Point [(1 / 2, 1 / 2), (500001 / 1000000, 1 / 2), (11 / 2, 11 / 2)]"
    by (simp add: claims_example_def)
  show ?thesis
    unfolding filter_unique_features_result [OF decimals_of_default g1]
    by (simp add: claims_example_def set_column_def)
qed

section \<open>Accuracy aggregation counts every feature once\<close>

lemma dict_incr_result:
  assumes "dict_incr d k = Inr d'" and "distinct (map fst d)"
  shows "k \<in> set (map fst d) \<and> d' = map (\<lambda>entry. (fst entry, if fst entry = k then snd entry + 1 else snd entry)) d"
  using assms
proof (induction d arbitrary: d')
  case Nil
  then show ?case by simp
next
  case (Cons entry d)
  show ?case
  proof (cases "fst entry = k")
    case True
    with Cons.prems have d': "d' = (k, snd entry + 1) # d" and nk: "k \<notin> set (map fst d)"
      by auto
    have "map (\<lambda>entry. (fst entry, if fst entry = k then snd entry + 1 else snd entry)) d = d"
      using nk by (intro map_idI) (auto simp: image_iff)
    then show ?thesis using True d' by simp
  next
    case False
    with Cons.prems obtain d1 where d1: "dict_incr d k = Inr d1" and d': "d' = entry # d1"
      by (auto split: sum.splits)
    from Cons.prems have "distinct (map fst d)" by simp
    from Cons.IH [OF d1 this] show ?thesis using False d' by simp
  qed
qed

lemma sum_list_incr:
  assumes "k \<in> set (map fst d)" and "distinct (map fst d)"
  shows "sum_list (map snd (map (\<lambda>entry. (fst entry, if fst entry = k then snd entry + 1 else snd entry)) d)) =
         sum_list (map snd d) + (1::nat)"
  using assms
proof (induction d)
  case Nil
  then show ?case by simp
next
  case (Cons entry d)
  show ?case
  proof (cases "fst entry = k")
    case True
    with Cons.prems have nk: "k \<notin> set (map fst d)" by auto
    have "map (\<lambda>entry. (fst entry, if fst entry = k then snd entry + 1 else snd entry)) d = d"
      using nk by (intro map_idI) (auto simp: image_iff)
    then show ?thesis using True by simp
  next
    case False
    with Cons.prems have "k \<in> set (map fst d)" "distinct (map fst d)" by auto
    from Cons.IH [OF this] show ?thesis using False by simp
  qed
qed

lemma resolved_to_Cons:
  "resolved_to G src (claim # rest) k =
     (if check_flood_at_point G claim src claim_search_distance = Inr k then 1 else 0) + resolved_to G src rest k"
  by (simp add: resolved_to_def)

lemma resolved_positive_Cons:
  "check_flood_at_point G claim src claim_search_distance = Inr c \<Longrightarrow>
   resolved_positive G src (claim # rest) = (if 0 < c then 1 else 0) + resolved_positive G src rest"
  by (simp add: resolved_positive_def)

lemma process_claims_result:
  assumes "process_claims G src claims (covered, d) = Inr (covered', d')"
    and "distinct (map fst d)"
  shows "d' = map (\<lambda>entry. (fst entry, snd entry + resolved_to G src claims (fst entry))) d
       \<and> sum_list (map snd d') = sum_list (map snd d) + length claims
       \<and> covered' = covered + resolved_positive G src claims
       \<and> (\<forall>claim \<in> set claims. \<exists>k \<in> set (map fst d).
             check_flood_at_point G claim src claim_search_distance = Inr k)"
  using assms
proof (induction claims arbitrary: covered d)
  case Nil
  then show ?case by (simp add: resolved_to_def resolved_positive_def)
next
  case (Cons claim rest)
  from Cons.prems(1) obtain c d1 where
    c: "check_flood_at_point G claim src claim_search_distance = Inr c"
    and d1: "dict_incr d c = Inr d1"
    and rest: "process_claims G src rest (if 0 < c then covered + 1 else covered, d1) = Inr (covered', d')"
    by (auto split: sum.splits cong: if_cong)
  from dict_incr_result [OF d1 Cons.prems(2)] have
    key: "c \<in> set (map fst d)"
    and d1_eq: "d1 = map (\<lambda>entry. (fst entry, if fst entry = c then snd entry + 1 else snd entry)) d"
    by simp_all
  have dist1: "distinct (map fst d1)" unfolding d1_eq using Cons.prems(2) by (simp add: comp_def)
  have keys1: "map fst d1 = map fst d" unfolding d1_eq by (simp add: comp_def)
  have sum1: "sum_list (map snd d1) = sum_list (map snd d) + 1"
    unfolding d1_eq using key Cons.prems(2) by (rule sum_list_incr)
  from Cons.IH [OF rest dist1] have
    ih_d: "d' = map (\<lambda>entry. (fst entry, snd entry + resolved_to G src rest (fst entry))) d1"
    and ih_sum: "sum_list (map snd d') = sum_list (map snd d1) + length rest"
    and ih_cov: "covered' = (if 0 < c then covered + 1 else covered) + resolved_positive G src rest"
    and ih_all: "\<forall>claim \<in> set rest. \<exists>k \<in> set (map fst d1).
                   check_flood_at_point G claim src claim_search_distance = Inr k"
    by blast+
  have a: "d' = map (\<lambda>entry. (fst entry, snd entry + resolved_to G src (claim # rest) (fst entry))) d"
    unfolding ih_d d1_eq by (auto simp: resolved_to_Cons c)
  have b: "sum_list (map snd d') = sum_list (map snd d) + length (claim # rest)"
    unfolding ih_sum sum1 by simp
  have e: "covered' = covered + resolved_positive G src (claim # rest)"
    unfolding ih_cov by (simp add: resolved_positive_Cons [OF c])
  have f: "\<forall>claim' \<in> set (claim # rest). \<exists>k \<in> set (map fst d).
             check_flood_at_point G claim' src claim_search_distance = Inr k"
    using ih_all key c unfolding keys1 by auto
  from a b e f show ?case by blast
qed

lemma buckets_partition:
  assumes "\<forall>claim \<in> set claims. \<exists>k. 0 \<le> k \<and> check_flood_at_point G claim src claim_search_distance = Inr k"
  shows "resolved_positive G src claims + resolved_to G src claims 0 = length claims"
  using assms
proof (induction claims)
  case Nil
  then show ?case by (simp add: resolved_to_def resolved_positive_def)
next
  case (Cons claim rest)
  then obtain k where k: "0 \<le> k" "check_flood_at_point G claim src claim_search_distance = Inr k"
    by auto
  from Cons have "resolved_positive G src rest + resolved_to G src rest 0 = length rest" by simp
  then show ?case using k by (simp add: resolved_to_Cons resolved_positive_Cons [OF k(2)])
qed

lemma analyze_flood_accuracy_result:
  assumes "analyze_flood_accuracy G N src claims_gdf = Inr res"
  shows "\<exists>cropped out.
      overlay G claims_gdf = Inr cropped \<and>
      filter_unique_features N cropped (1 / 100000) = Inr out \<and>
      (if geometry (unique_claims out) = []
       then res = \<lparr>total_claims = 0, covered_claims = 0, accuracy = 0,
                   flood_categories = [(0, 0), (1, 0), (2, 0), (3, 0), (4, 0)]\<rparr>
       else \<exists>covered counts.
              process_claims G src (geometry (unique_claims out))
                (0, [(0, 0), (1, 0), (2, 0), (3, 0), (4, 0)]) = Inr (covered, counts) \<and>
              res = \<lparr>total_claims = length (geometry (unique_claims out)),
                     covered_claims = covered,
                     accuracy = real covered / real (length (geometry (unique_claims out))),
                     flood_categories = counts\<rparr>)"
  using assms unfolding analyze_flood_accuracy_def
  by (auto simp: Let_def split: sum.splits if_splits prod.splits)

text \<open>When an accuracy run returns a result, its total is the number of features that
  remain after cropping and deduplication, each of them resolves to one of the categories
  0 to 4, the bucket of a category counts the features that resolve to it, and
  \<^verbatim>\<open>covered_claims\<close> counts those that resolve to a category above 0; so the buckets sum
  to the total, and \<^verbatim>\<open>covered_claims\<close> plus the bucket 0 is the total.\<close>

lemma histogram_conserved_when_run_returns:
  assumes "analyze_flood_accuracy G N src claims_gdf = Inr res"
  shows "\<exists>cropped out n0.
      overlay G claims_gdf = Inr cropped \<and>
      filter_unique_features N cropped (1 / 100000) = Inr out \<and>
      total_claims res = length (geometry (unique_claims out)) \<and>
      (\<forall>claim \<in> set (geometry (unique_claims out)). \<exists>k \<in> {0, 1, 2, 3, 4}.
          check_flood_at_point G claim src claim_search_distance = Inr k) \<and>
      flood_categories res =
        map (\<lambda>k. (k, resolved_to G src (geometry (unique_claims out)) k)) [0, 1, 2, 3, 4] \<and>
      covered_claims res = resolved_positive G src (geometry (unique_claims out)) \<and>
      sum_list (map snd (flood_categories res)) = total_claims res \<and>
      map_of (flood_categories res) 0 = Some n0 \<and>
      covered_claims res + n0 = total_claims res"
proof -
  from analyze_flood_accuracy_result [OF assms] obtain cropped out where
    ov: "overlay G claims_gdf = Inr cropped"
    and fu: "filter_unique_features N cropped (1 / 100000) = Inr out"
    and r: "if geometry (unique_claims out) = []
       then res = \<lparr>total_claims = 0, covered_claims = 0, accuracy = 0,
                   flood_categories = [(0, 0), (1, 0), (2, 0), (3, 0), (4, 0)]\<rparr>
       else \<exists>covered counts.
              process_claims G src (geometry (unique_claims out))
                (0, [(0, 0), (1, 0), (2, 0), (3, 0), (4, 0)]) = Inr (covered, counts) \<and>
              res = \<lparr>total_claims = length (geometry (unique_claims out)),
                     covered_claims = covered,
                     accuracy = real covered / real (length (geometry (unique_claims out))),
                     flood_categories = counts\<rparr>"
    by blast
  let ?claims = "geometry (unique_claims out)"
  have main: "total_claims res = length ?claims \<and>
      (\<forall>claim \<in> set ?claims. \<exists>k \<in> {0, 1, 2, 3, 4}.
          check_flood_at_point G claim src claim_search_distance = Inr k) \<and>
      flood_categories res = map (\<lambda>k. (k, resolved_to G src ?claims k)) [0, 1, 2, 3, 4] \<and>
      covered_claims res = resolved_positive G src ?claims \<and>
      sum_list (map snd (flood_categories res)) = total_claims res"
  proof (cases "?claims = []")
    case True
    with r show ?thesis by (simp add: resolved_to_def resolved_positive_def)
  next
    case False
    with r obtain covered counts where
      pc: "process_claims G src ?claims (0, [(0, 0), (1, 0), (2, 0), (3, 0), (4, 0)]) = Inr (covered, counts)"
      and res: "res = \<lparr>total_claims = length ?claims, covered_claims = covered,
                     accuracy = real covered / real (length ?claims),
                     flood_categories = counts\<rparr>"
      by auto
    have dist: "distinct (map fst [(0::int, 0::nat), (1, 0), (2, 0), (3, 0), (4, 0)])" by simp
    from process_claims_result [OF pc dist] have
      c1: "counts = map (\<lambda>entry. (fst entry, snd entry + resolved_to G src ?claims (fst entry)))
                      [(0, 0), (1, 0), (2, 0), (3, 0), (4, 0)]"
      and c2: "sum_list (map snd counts) =
                 sum_list (map snd [(0::int, 0::nat), (1, 0), (2, 0), (3, 0), (4, 0)]) + length ?claims"
      and c3: "covered = 0 + resolved_positive G src ?claims"
      and c4: "\<forall>claim \<in> set ?claims. \<exists>k \<in> set (map fst [(0::int, 0::nat), (1, 0), (2, 0), (3, 0), (4, 0)]).
                 check_flood_at_point G claim src claim_search_distance = Inr k"
      by blast+
    from c4 have c4': "\<forall>claim \<in> set ?claims. \<exists>k \<in> {0, 1, 2, 3, 4}.
          check_flood_at_point G claim src claim_search_distance = Inr k" by simp
    from c1 have c1': "counts = map (\<lambda>k. (k, resolved_to G src ?claims k)) [0, 1, 2, 3, 4]" by simp
    from c2 have c2': "sum_list (map snd counts) = length ?claims" by simp
    show ?thesis unfolding res using c1' c2' c3 c4' by simp
  qed
  then have all: "\<forall>claim \<in> set ?claims. \<exists>k. 0 \<le> k \<and>
      check_flood_at_point G claim src claim_search_distance = Inr k"
    by fastforce
  have n0: "map_of (flood_categories res) 0 = Some (resolved_to G src ?claims 0)"
    using main by simp
  have "covered_claims res + resolved_to G src ?claims 0 = total_claims res"
    using buckets_partition [OF all] main by simp
  with ov fu main n0 show ?thesis by blast
qed

lemma dedup_of_nothing:
  assumes "geometry f = []"
  shows "\<exists>out. filter_unique_features N f (1 / 100000) = Inr out \<and>
               geometry (unique_claims out) = []"
proof -
  have g: "geometry f = map Point []" using assms by simp
  show ?thesis
    unfolding filter_unique_features_result [OF decimals_of_default g]
    by (simp add: select_rows_def assms)
qed

text \<open>Claim C8. When no feature remains after cropping and deduplication, the run returns
  the zero result: no claims, none covered, accuracy 0 and five empty buckets; this is so
  whenever cropping leaves no feature, as deduplication cannot fail then. When a run
  returns a result with a positive total, its accuracy is the quotient of
  \<^verbatim>\<open>covered_claims\<close> by \<^verbatim>\<open>total_claims\<close>.\<close>

theorem empty_batch_and_accuracy:
  "(overlay G claims_gdf = Inr cropped \<and> geometry cropped = [] \<longrightarrow>
      analyze_flood_accuracy G N src claims_gdf =
        Inr \<lparr>total_claims = 0, covered_claims = 0, accuracy = 0,
             flood_categories = [(0, 0), (1, 0), (2, 0), (3, 0), (4, 0)]\<rparr>)
   \<and> (overlay G claims_gdf = Inr cropped \<and>
    filter_unique_features N cropped (1 / 100000) = Inr out \<and>
    geometry (unique_claims out) = [] \<longrightarrow>
      analyze_flood_accuracy G N src claims_gdf =
        Inr \<lparr>total_claims = 0, covered_claims = 0, accuracy = 0,
             flood_categories = [(0, 0), (1, 0), (2, 0), (3, 0), (4, 0)]\<rparr>)
   \<and> (analyze_flood_accuracy G N src claims_gdf = Inr res \<and> 0 < total_claims res \<longrightarrow>
        accuracy res = real (covered_claims res) / real (total_claims res))"
proof -
  have a: "analyze_flood_accuracy G N src claims_gdf =
        Inr \<lparr>total_claims = 0, covered_claims = 0, accuracy = 0,
             flood_categories = [(0, 0), (1, 0), (2, 0), (3, 0), (4, 0)]\<rparr>"
    if "overlay G claims_gdf = Inr cropped"
      and "filter_unique_features N cropped (1 / 100000) = Inr out"
      and "geometry (unique_claims out) = []"
    for out
    using that by (simp add: analyze_flood_accuracy_def)
  have z: "analyze_flood_accuracy G N src claims_gdf =
        Inr \<lparr>total_claims = 0, covered_claims = 0, accuracy = 0,
             flood_categories = [(0, 0), (1, 0), (2, 0), (3, 0), (4, 0)]\<rparr>"
    if "overlay G claims_gdf = Inr cropped" and "geometry cropped = []"
    using dedup_of_nothing [OF that(2), of N] a [OF that(1)] by blast
  have b: "accuracy res = real (covered_claims res) / real (total_claims res)"
    if "analyze_flood_accuracy G N src claims_gdf = Inr res" and "0 < total_claims res"
    using analyze_flood_accuracy_result [OF that(1)] that(2)
    by (auto split: if_splits)
  from z a b show ?thesis by blast
qed

lemma example_unique:
  "filter_unique_features exact_numlib claims_example (1 / 100000) =
     Inr \<lparr>claims_gdf_after =
       \<lparr>geometry = [Point (1 / 2, 1 / 2), Point (500001 / 1000000, 1 / 2), Point (11 / 2, 11 / 2)],
        columns = [(''claim_id'', [Str ''a'', Str ''b'', Str ''c'']),
                   (''rounded_x'', [Num (1 / 2), Num (1 / 2), Num (11 / 2)]),
                   (''rounded_y'', [Num (1 / 2), Num (1 / 2), Num (11 / 2)])]\<rparr>,
      unique_claims = apart_claims, filtered = 1\<rparr>"
proof -
  have g: "geometry claims_example =
      map Point [(1 / 2, 1 / 2), (500001 / 1000000, 1 / 2), (11 / 2, 11 / 2)]"
    by (simp add: claims_example_def)
  show ?thesis
    unfolding filter_unique_features_result [OF decimals_of_default g]
    by (simp add: claims_example_def apart_claims_def set_column_def select_rows_def
          rounded_xy_def round_to_exact keep_first_3)
qed

lemma no_claims_unique:
  "filter_unique_features exact_numlib no_claims (1 / 100000) =
     Inr \<lparr>claims_gdf_after =
       \<lparr>geometry = [], columns = [(''claim_id'', []), (''rounded_x'', []), (''rounded_y'', [])]\<rparr>,
      unique_claims = no_claims, filtered = 0\<rparr>"
proof -
  have g: "geometry no_claims = map Point []" by (simp add: no_claims_def)
  show ?thesis
    unfolding filter_unique_features_result [OF decimals_of_default g]
    by (simp add: no_claims_def set_column_def select_rows_def keep_first_def)
qed

lemma example_categories:
  "check_flood_at_point grid_geo (Point (1 / 2, 1 / 2)) (scenario_raster 0) claim_search_distance = Inr 2"
  "check_flood_at_point grid_geo (Point (11 / 2, 11 / 2)) (scenario_raster 0) claim_search_distance = Inr 0"
  by (simp_all add: check_flood_at_point_def check_flood_try_def check_buffer_def rasterio_mask_def
        read_cell_def grid_geo_def scenario_raster_def claim_search_distance_def
        upto_rec1 power2_eq_square)

lemma analyze_example:
  "analyze_flood_accuracy grid_geo exact_numlib (scenario_raster 0) claims_example =
     Inr \<lparr>total_claims = 2, covered_claims = 1, accuracy = 1 / 2,
          flood_categories = [(0, 1), (1, 0), (2, 1), (3, 0), (4, 0)]\<rparr>"
proof -
  have ov: "overlay grid_geo claims_example = Inr claims_example" by (simp add: grid_geo_def)
  have pc: "process_claims grid_geo (scenario_raster 0) (geometry apart_claims)
              (0, [(0, 0), (1, 0), (2, 0), (3, 0), (4, 0)]) =
            Inr (1, [(0, 1), (1, 0), (2, 1), (3, 0), (4, 0)])"
    by (simp add: apart_claims_def example_categories)
  have n: "length (geometry apart_claims) = 2" "geometry apart_claims \<noteq> []"
    by (simp_all add: apart_claims_def)
  show ?thesis
    unfolding analyze_flood_accuracy_def
    by (simp add: ov example_unique pc n Let_def)
qed

text \<open>An empty collection gives the zero result, and the three claims an accuracy of one
  half.\<close>

theorem empty_batch_and_accuracy_witness:
  "analyze_flood_accuracy grid_geo exact_numlib (scenario_raster 0) no_claims =
     Inr \<lparr>total_claims = 0, covered_claims = 0, accuracy = 0,
          flood_categories = [(0, 0), (1, 0), (2, 0), (3, 0), (4, 0)]\<rparr>
   \<and> map_sum id accuracy
       (analyze_flood_accuracy grid_geo exact_numlib (scenario_raster 0) claims_example) =
     Inr (1 / 2)"
proof -
  have ov: "overlay grid_geo no_claims = Inr no_claims" by (simp add: grid_geo_def)
  have e: "geometry (unique_claims
      \<lparr>claims_gdf_after =
         \<lparr>geometry = [], columns = [(''claim_id'', []), (''rounded_x'', []), (''rounded_y'', [])]\<rparr>,
       unique_claims = no_claims, filtered = 0\<rparr>) = []"
    by (simp add: no_claims_def)
  have a: "analyze_flood_accuracy grid_geo exact_numlib (scenario_raster 0) no_claims =
     Inr \<lparr>total_claims = 0, covered_claims = 0, accuracy = 0,
          flood_categories = [(0, 0), (1, 0), (2, 0), (3, 0), (4, 0)]\<rparr>"
    using empty_batch_and_accuracy
      [of grid_geo no_claims no_claims exact_numlib "scenario_raster 0"] ov no_claims_unique e
    by blast
  have t: "0 < total_claims \<lparr>total_claims = 2, covered_claims = 1, accuracy = 1 / 2,
          flood_categories = [(0, 1), (1, 0), (2, 1), (3, 0), (4, 0)]\<rparr>" by simp
  have b: "accuracy \<lparr>total_claims = 2, covered_claims = 1, accuracy = 1 / 2,
          flood_categories = [(0, 1), (1, 0), (2, 1), (3, 0), (4, 0)]\<rparr> = 1 / 2"
    using empty_batch_and_accuracy
      [of grid_geo claims_example _ exact_numlib "scenario_raster 0"] analyze_example t
    by simp
  from a b show ?thesis by (simp add: analyze_example)
qed


text \<open>Claim C7 fails on the code: a run over two claims in the footprint of the scenario
  raster, one of them on the sentinel cell \<open>(5, 5)\<close>, returns no histogram. The resolver
  returns the sentinel 255 for that claim, which is no key of the histogram, and the run
  ends with a \<^verbatim>\<open>KeyError\<close>.\<close>

theorem analyze_raises_on_sentinel:
  "analyze_flood_accuracy grid_geo exact_numlib (scenario_raster 255) apart_claims = Inl KeyError"
proof -
  have g: "geometry apart_claims = map Point [(1 / 2, 1 / 2), (11 / 2, 11 / 2)]"
    by (simp add: apart_claims_def)
  have u: "filter_unique_features exact_numlib apart_claims (1 / 100000) =
     Inr \<lparr>claims_gdf_after =
       \<lparr>geometry = [Point (1 / 2, 1 / 2), Point (11 / 2, 11 / 2)],
        columns = [(''claim_id'', [Str ''a'', Str ''c'']),
                   (''rounded_x'', [Num (1 / 2), Num (11 / 2)]),
                   (''rounded_y'', [Num (1 / 2), Num (11 / 2)])]\<rparr>,
      unique_claims = apart_claims, filtered = 0\<rparr>"
    unfolding filter_unique_features_result [OF decimals_of_default g]
    by (simp add: apart_claims_def set_column_def select_rows_def
          rounded_xy_def round_to_exact keep_first_2)
  have c: "check_flood_at_point grid_geo (Point (1 / 2, 1 / 2)) (scenario_raster 255)
             claim_search_distance = Inr 2"
    "check_flood_at_point grid_geo (Point (11 / 2, 11 / 2)) (scenario_raster 255)
             claim_search_distance = Inr 255"
    by (simp_all add: check_flood_at_point_def check_flood_try_def read_cell_def grid_geo_def
          scenario_raster_def)
  have pc: "process_claims grid_geo (scenario_raster 255) (geometry apart_claims)
              (0, [(0, 0), (1, 0), (2, 0), (3, 0), (4, 0)]) = Inl KeyError"
    by (simp add: apart_claims_def c)
  have ov: "overlay grid_geo apart_claims = Inr apart_claims" by (simp add: grid_geo_def)
  have n: "geometry apart_claims \<noteq> []" by (simp add: apart_claims_def)
  show ?thesis
    unfolding analyze_flood_accuracy_def by (simp add: ov u pc n Let_def)
qed

end
